theory Spec2Isabelle
  imports Main "HOL-Library.Sublist"
begin

section \<open>Python values, strings and errors\<close>

text \<open>
  A Python \<open>str\<close> is modelled as a HOL \<open>string\<close>; each \<open>char\<close> stands for the Python
  character with the same code point (0 to 255). Python integers are unbounded, so they
  are \<open>int\<close>. Every \<open>raise\<close> of the notebooks and every exception of a Python primitive
  the notebooks rely on is a value of \<open>error\<close>; a function that can raise returns
  \<open>error + 'a\<close>.
\<close>

datatype error =
    Exception string
  | KeyError string
  | TypeError
  | ValidationError
  | JSONDecodeError
  | ActionFailed string

text \<open>What a Python function hands back: \<open>None\<close> (a bare \<open>return\<close>, or falling off the
  end of the body) or a string.\<close>

datatype pyval = PyNone | PyStr string

definition nl :: string where
  "nl = [CHR 0x0A]"

text \<open>\<open>s.split("\n")\<close>: the pieces between newlines; never an empty list.\<close>

fun split_nl :: "string \<Rightarrow> string list" where
  "split_nl [] = [[]]"
| "split_nl (c # cs) =
     (if c = CHR 0x0A then [] # split_nl cs
      else (case split_nl cs of [] \<Rightarrow> [[c]] | l # ls \<Rightarrow> (c # l) # ls))"

fun strip_prefix :: "'a list \<Rightarrow> 'a list \<Rightarrow> 'a list option" where
  "strip_prefix [] ys = Some ys"
| "strip_prefix (x # xs) [] = None"
| "strip_prefix (x # xs) (y # ys) = (if x = y then strip_prefix xs ys else None)"

text \<open>\<open>a in b\<close> on two strings: \<open>a\<close> occurs in \<open>b\<close> as a contiguous piece.\<close>

fun py_in :: "string \<Rightarrow> string \<Rightarrow> bool" where
  "py_in xs [] = (xs = [])"
| "py_in xs (y # ys) = (strip_prefix xs (y # ys) \<noteq> None \<or> py_in xs ys)"

section \<open>Lesson 1: the ReAct agent\<close>

subsection \<open>The action pattern\<close>

text \<open>
  \<^verbatim>\<open>action_re = re.compile("^Action: (\w+): (.*)$")\<close>

  \<open>\w\<close> in a Python 3 \<open>str\<close> pattern is a Unicode word character: alphanumeric or the
  underscore. For the code points below 256 these are the ASCII digits and letters, the
  underscore, and the Latin-1 letters and numeric signs listed in \<open>is_word\<close>.
\<close>

definition is_word :: "char \<Rightarrow> bool" where
  "is_word c =
     (let n = (of_char c :: nat) in
        (48 \<le> n \<and> n \<le> 57) \<or> (65 \<le> n \<and> n \<le> 90) \<or> n = 95 \<or> (97 \<le> n \<and> n \<le> 122) \<or>
        n = 170 \<or> n = 178 \<or> n = 179 \<or> n = 181 \<or> n = 185 \<or> n = 186 \<or>
        (188 \<le> n \<and> n \<le> 190) \<or> (192 \<le> n \<and> n \<le> 214) \<or> (216 \<le> n \<and> n \<le> 246) \<or>
        (248 \<le> n \<and> n \<le> 255))"

text \<open>
  \<open>action_re.match(a)\<close>, giving \<open>groups()\<close> on a match. The pattern is anchored at the
  start; \<open>\w+\<close> is greedy and the colon after it is no word character, so the name is the
  longest run of word characters; \<open>.\<close> matches anything but a newline, and \<open>$\<close> matches
  at the end of the string or just before a newline that ends it.
\<close>

definition action_re :: "string \<Rightarrow> (string \<times> string) option" where
  "action_re a =
     (case strip_prefix ''Action: '' a of
        None \<Rightarrow> None
      | Some r \<Rightarrow>
          (let name = takeWhile is_word r; rest = dropWhile is_word r in
           if name = [] then None
           else (case strip_prefix '': '' rest of
                   None \<Rightarrow> None
                 | Some r2 \<Rightarrow>
                     (let arg = takeWhile (\<lambda>c. c \<noteq> CHR 0x0A) r2;
                          tl = dropWhile (\<lambda>c. c \<noteq> CHR 0x0A) r2
                      in if tl = [] \<or> tl = [CHR 0x0A] then Some (name, arg) else None))))"

text \<open>
  \<^verbatim>\<open>[action_re.match(a) for a in result.split("\n") if action_re.match(a)]\<close>:
  the matches of the lines that match, in the order of the lines.
\<close>

definition action_lines :: "string \<Rightarrow> (string \<times> string) list" where
  "action_lines text = List.map_filter action_re (split_nl text)"

subsection \<open>The Agent class\<close>

datatype role = User | Assistant

record agent =
  system :: string
  messages :: "(role \<times> string) list"

text \<open>The Bedrock \<open>converse\<close> call is outside the repository: it is a parameter that maps
  the system prompt and the message list to the generated text. The constructor wraps a
  non-empty system prompt for that call (\<open>[{"text": system}]\<close>); the model keeps the
  string.\<close>

type_synonym converse = "string \<Rightarrow> (role \<times> string) list \<Rightarrow> string"

definition Agent :: "string \<Rightarrow> agent" where
  "Agent sys = \<lparr>system = sys, messages = []\<rparr>"

definition execute :: "converse \<Rightarrow> agent \<Rightarrow> string" where
  "execute conv self = conv (system self) (messages self)"

definition agent_call :: "converse \<Rightarrow> agent \<Rightarrow> string \<Rightarrow> string \<times> agent" where
  "agent_call conv self message =
     (let self1 = self\<lparr>messages := messages self @ [(User, message)]\<rparr>;
          result = execute conv self1;
          self2 = self1\<lparr>messages := messages self1 @ [(Assistant, result)]\<rparr>
      in (result, self2))"

subsection \<open>Prompt and actions\<close>

definition prompt :: string where
  "prompt =
     ''You run in a loop of Thought, Action, PAUSE, Observation.'' @ nl @
     ''At the end of the loop you output an Answer'' @ nl @
     ''Use Thought to describe your thoughts about the question you have been asked.'' @ nl @
     ''Use Action to run one of the actions available to you - then return PAUSE.'' @ nl @
     ''Observation will be the result of running those actions.'' @ nl @
     '''' @ nl @
     ''Your available actions are:'' @ nl @
     '''' @ nl @
     ''calculate:'' @ nl @
     ''e.g. calculate: 4 * 7 / 3'' @ nl @
     ''Runs a calculation and returns the number - uses Python so be sure to use floating point syntax if necessary'' @ nl @
     '''' @ nl @
     ''average_dog_weight:'' @ nl @
     ''e.g. average_dog_weight: Collie'' @ nl @
     ''returns average weight of a dog when given the breed'' @ nl @
     '''' @ nl @
     ''Example session:'' @ nl @
     '''' @ nl @
     ''Question: How much does a Bulldog weigh?'' @ nl @
     ''Thought: I should look the dogs weight using average_dog_weight'' @ nl @
     ''Action: average_dog_weight: Bulldog'' @ nl @
     ''PAUSE'' @ nl @
     '''' @ nl @
     ''You will be called again with this:'' @ nl @
     '''' @ nl @
     ''Observation: A Bulldog weights 51 lbs'' @ nl @
     '''' @ nl @
     ''You then output:'' @ nl @
     '''' @ nl @
     ''Answer: A bulldog weights 51 lbs''"

definition average_dog_weight :: "string \<Rightarrow> string" where
  "average_dog_weight name =
     (if py_in name ''Scottish Terrier'' then ''Scottish Terriers average 20 lbs''
      else if py_in name ''Border Collie'' then ''a Border Collies average weight is 37 lbs''
      else if py_in name ''Toy Poodle'' then ''a toy poodles average weight is 7 lbs''
      else ''An average dog weights 50 lbs'')"

text \<open>An action is a Python callable on one string. It may raise; what it returns is put
  into the next prompt by \<open>str.format\<close>, so the model keeps the formatted text.\<close>

type_synonym action = "string \<Rightarrow> error + string"

text \<open>\<open>calculate\<close> is Python's \<open>eval\<close>, which is not modelled: it is a parameter.\<close>

definition known_actions :: "action \<Rightarrow> string \<rightharpoonup> action" where
  "known_actions calculate =
     [''calculate'' \<mapsto> calculate,
      ''average_dog_weight'' \<mapsto> (\<lambda>name. Inr (average_dog_weight name))]"

subsection \<open>The loop\<close>

text \<open>What a run does to the outside, in order: the model calls (with the messages sent),
  the lines printed, and the actions called.\<close>

datatype event =
    Converse "(role \<times> string) list"
  | Print string
  | RunAction string string

text \<open>
  \<^verbatim>\<open>
  def query(question, max_turns=5):
      i = 0
      bot = Agent(prompt)
      next_prompt = question
      while i < max_turns:
          i += 1
          result = bot(next_prompt)
          print(result)
          actions = [action_re.match(a) for a in result.split("\n") if action_re.match(a)]
          if actions:
              action, action_input = actions[0].groups()
              if action not in known_actions:
                  raise Exception("Unknown action: {}: {}".format(action, action_input))
              print(" -- running {} {}".format(action, action_input))
              observation = known_actions[action](action_input)
              print("Observation:", observation)
              next_prompt = "Observation: {}".format(observation)
          else:
              return
  \<close>
  The \<open>while\<close> loop is \<open>query_loop\<close>, on the loop variables \<open>i\<close>, \<open>bot\<close> (written \<open>agt\<close>) and \<open>next_prompt\<close>
  and the events so far; the registry \<open>known_actions\<close> is a parameter.
\<close>

function query_loop ::
  "converse \<Rightarrow> (string \<rightharpoonup> action) \<Rightarrow> int \<Rightarrow> int \<Rightarrow> agent \<Rightarrow> string \<Rightarrow> event list
     \<Rightarrow> (error + pyval) \<times> agent \<times> event list" where
  "query_loop conv known max_turns i agt next_prompt log =
     (if i < max_turns then
        (let (result, agt') = agent_call conv agt next_prompt;
             log1 = log @ [Converse (messages agt @ [(User, next_prompt)]), Print result];
             actions = action_lines result
         in case actions of
              (action, action_input) # _ \<Rightarrow>
                (case known action of
                   None \<Rightarrow>
                     (Inl (Exception (''Unknown action: '' @ action @ '': '' @ action_input)),
                      agt', log1)
                 | Some f \<Rightarrow>
                     (let log2 = log1 @ [Print ('' -- running '' @ action @ '' '' @ action_input),
                                         RunAction action action_input]
                      in case f action_input of
                           Inl e \<Rightarrow> (Inl e, agt', log2)
                         | Inr observation \<Rightarrow>
                             query_loop conv known max_turns (i + 1) agt'
                               (''Observation: '' @ observation)
                               (log2 @ [Print (''Observation: '' @ observation)])))
            | [] \<Rightarrow> (Inr PyNone, agt', log1))
      else (Inr PyNone, agt, log))"
  by pat_completeness auto
termination
  by (relation "measure (\<lambda>(conv, known, max_turns, i, agt, next_prompt, log). nat (max_turns - i))")
     auto

declare query_loop.simps [simp del]

definition query ::
  "converse \<Rightarrow> (string \<rightharpoonup> action) \<Rightarrow> string \<Rightarrow> int
     \<Rightarrow> (error + pyval) \<times> agent \<times> event list" where
  "query conv known question max_turns =
     query_loop conv known max_turns 0 (Agent prompt) question []"

section \<open>Lesson 6: the essay writer\<close>

subsection \<open>The shared state\<close>

text \<open>
  \<^verbatim>\<open>
  class AgentState(TypedDict):
      task: str
      plan: str
      draft: str
      critique: str
      content: List[str]
      revision_number: int
      max_revisions: int
  \<close>
  At run time the state is a Python dict: a key can be absent (the run of the notebook
  starts from \<open>task\<close>, \<open>max_revisions\<close> and \<open>revision_number\<close> only), and the nodes guard
  against a key that is bound to \<open>None\<close> (\<open>state["content"] or []\<close>). A slot is therefore
  absent, \<open>None\<close>, or a value of the declared type.
\<close>

datatype 'a slot = Missing | Null | Val 'a

record AgentState =
  task :: "string slot"
  plan :: "string slot"
  draft :: "string slot"
  critique :: "string slot"
  content :: "string list slot"
  revision_number :: "int slot"
  max_revisions :: "int slot"

text \<open>\<open>state[key]\<close>: raises \<open>KeyError\<close> on an absent key; the result is \<open>None\<close> or a
  value.\<close>

definition subscript :: "string \<Rightarrow> 'a slot \<Rightarrow> error + 'a option" where
  "subscript key v =
     (case v of Missing \<Rightarrow> Inl (KeyError key) | Null \<Rightarrow> Inr None | Val x \<Rightarrow> Inr (Some x))"

text \<open>\<open>state.get(key, default)\<close>: the default stands in for an absent key only.\<close>

definition get_default :: "'a slot \<Rightarrow> 'a \<Rightarrow> 'a option" where
  "get_default v d = (case v of Missing \<Rightarrow> Some d | Null \<Rightarrow> None | Val x \<Rightarrow> Some x)"

text \<open>\<open>x or []\<close> on a list or \<open>None\<close>.\<close>

definition or_empty :: "'a list option \<Rightarrow> 'a list" where
  "or_empty x = (case x of None \<Rightarrow> [] | Some xs \<Rightarrow> xs)"

text \<open>A string or \<open>None\<close> put into an f-string or a template.\<close>

definition fmt :: "string option \<Rightarrow> string" where
  "fmt x = (case x of None \<Rightarrow> ''None'' | Some s \<Rightarrow> s)"

text \<open>\<open>sep.join(xs)\<close>\<close>

fun py_join :: "string \<Rightarrow> string list \<Rightarrow> string" where
  "py_join sep [] = []"
| "py_join sep [x] = x"
| "py_join sep (x # y # ys) = x @ sep @ py_join sep (y # ys)"

text \<open>\<open>s.find(c)\<close> and \<open>s.rfind(c)\<close> for a one-character \<open>c\<close>: the first and the last
  index of \<open>c\<close>, or \<open>-1\<close>.\<close>

definition py_find :: "char \<Rightarrow> string \<Rightarrow> int" where
  "py_find c s = (if c \<in> set s then int (length (takeWhile (\<lambda>x. x \<noteq> c) s)) else - 1)"

definition py_rfind :: "char \<Rightarrow> string \<Rightarrow> int" where
  "py_rfind c s =
     (if c \<in> set s then int (length s) - 1 - int (length (takeWhile (\<lambda>x. x \<noteq> c) (rev s)))
      else - 1)"

text \<open>\<open>s[a:b]\<close>: a negative index counts from the end, and both are clipped to the
  string.\<close>

definition py_slice :: "string \<Rightarrow> int \<Rightarrow> int \<Rightarrow> string" where
  "py_slice s a b =
     (let n = int (length s);
          a' = (if a < 0 then max 0 (a + n) else min a n);
          b' = (if b < 0 then max 0 (b + n) else min b n)
      in drop (nat a') (take (nat b') s))"

subsection \<open>The outside world\<close>

datatype msg = SystemMessage string | HumanMessage string

text \<open>\<open>HumanMessage(content=x)\<close>: the message class validates its content, and \<open>None\<close>
  is rejected.\<close>

definition human :: "string option \<Rightarrow> error + msg" where
  "human x = (case x of None \<Rightarrow> Inl ValidationError | Some s \<Rightarrow> Inr (HumanMessage s))"

text \<open>
  The chat model, the search service, the JSON decoder and the pydantic classes are
  libraries: they are the parameters of the nodes.
  \<^item> \<open>model\<close>: \<open>model.invoke(messages).content\<close>;
  \<^item> \<open>format_instructions\<close>: \<open>parser.get_format_instructions()\<close>;
  \<^item> \<open>parse_queries\<close>: \<open>Queries(**json.loads(json_str)).queries\<close>, or the exception that
    \<open>json.loads\<close> or the constructor raises;
  \<^item> \<open>search\<close>: the \<open>content\<close> of every entry of
    \<open>tavily.search(query=q, max_results=k)["results"]\<close>.
  A failure of the transport to the model or to the search service is not modelled.
\<close>

record world =
  model :: "msg list \<Rightarrow> string"
  format_instructions :: string
  parse_queries :: "string \<Rightarrow> error + string list"
  search :: "string \<Rightarrow> nat \<Rightarrow> string list"

text \<open>The calls a node makes to the outside, in order.\<close>

datatype call = Invoke "msg list" | Search string nat

subsection \<open>Prompts\<close>

definition PLAN_PROMPT :: string where
  "PLAN_PROMPT = ''You are an expert writer tasked with writing a high level outline of an essay. Write such an outline for the user provided topic. Give an outline of the essay along with any relevant notes or instructions for the sections.''"

text \<open>\<open>WRITER_PROMPT.format(content=content)\<close>\<close>

definition WRITER_PROMPT :: "string \<Rightarrow> string" where
  "WRITER_PROMPT content_text =
     ''You are an essay assistant tasked with writing excellent 5-paragraph essays.Generate the best essay possible for the user'' @ [CHR 0x27] @ ''s request and the initial outline. If the user provides critique, respond with a revised version of your previous attempts. Utilize all the information below as needed: '' @ nl @
     '''' @ nl @
     ''------'' @ nl @
     ''<content>'' @ nl @
     content_text @ nl @
     ''</content>''"

definition REFLECTION_PROMPT :: string where
  "REFLECTION_PROMPT = ''You are a teacher grading an essay submission. Generate critique and recommendations for the user'' @ [CHR 0x27] @ ''s submission. Provide detailed recommendations, including requests for length, depth, style, etc.''"

text \<open>The two research prompts ask the model for three queries at most. The research
  nodes of this notebook build their prompt from a template and send neither of them.\<close>

definition RESEARCH_PLAN_PROMPT :: string where
  "RESEARCH_PLAN_PROMPT = ''You are a researcher charged with providing information that can be used when writing the following essay. Generate a list of search queries that will gather any relevant information. Only generate 3 queries max.''"

definition RESEARCH_CRITIQUE_PROMPT :: string where
  "RESEARCH_CRITIQUE_PROMPT = ''You are a researcher charged with providing information that can be used when making any requested revisions (as outlined below). Generate a list of search queries that will gather any relevant information. Only generate 3 queries max.''"

subsection \<open>Nodes\<close>

text \<open>A node returns a dict with some of the keys of the state: a list of updates.\<close>

datatype update =
    Plan string
  | Content "string list"
  | Draft string
  | Critique string
  | Revision_number int

type_synonym node_result = "(error + update list) \<times> call list"

text \<open>
  \<^verbatim>\<open>
  def plan_node(state: AgentState):
      messages = [SystemMessage(content=PLAN_PROMPT), HumanMessage(content=state["task"])]
      response = model.invoke(messages)
      return {"plan": response.content}
  \<close>
\<close>

definition plan_node :: "world \<Rightarrow> AgentState \<Rightarrow> node_result" where
  "plan_node w state =
     (case subscript ''task'' (task state) of
        Inl e \<Rightarrow> (Inl e, [])
      | Inr t \<Rightarrow>
          (case human t of
             Inl e \<Rightarrow> (Inl e, [])
           | Inr h \<Rightarrow>
               (let msgs = [SystemMessage PLAN_PROMPT, h];
                    response = model w msgs
                in (Inr [Plan response], [Invoke msgs]))))"

text \<open>
  \<^verbatim>\<open>
      json_start = queries_text.find("{")
      json_end = queries_text.rfind("}") + 1
      json_str = queries_text[json_start:json_end]
  \<close>
\<close>

definition json_str :: "string \<Rightarrow> string" where
  "json_str queries_text =
     (let json_start = py_find (CHR ''{'') queries_text;
          json_end = py_rfind (CHR ''}'') queries_text + 1
      in py_slice queries_text json_start json_end)"

text \<open>
  \<^verbatim>\<open>
      for q in parsed_queries.queries:
          response = tavily.search(query=q, max_results=2)
          for r in response["results"]:
              content.append(r["content"])
  \<close>
  The loop, on the list \<open>content\<close> (written \<open>cont\<close>) and the calls made so far.
\<close>

fun search_all :: "world \<Rightarrow> string list \<Rightarrow> string list \<Rightarrow> call list \<Rightarrow> string list \<times> call list" where
  "search_all w [] cont calls = (cont, calls)"
| "search_all w (q # qs) cont calls =
     search_all w qs (cont @ search w q 2) (calls @ [Search q 2])"

text \<open>
  \<^verbatim>\<open>
  def research_plan_node(state: AgentState):
      parser = PydanticOutputParser(pydantic_object=Queries)
      prompt = PromptTemplate(
          template="Generate research queries based on the given task.\n{format_instructions}\nTask: {task}\n",
          input_variables=["task"],
          partial_variables={"format_instructions": parser.get_format_instructions()},
      )
      queries_output = model.invoke(prompt.format_prompt(task=state["task"]))
      queries_text = queries_output.content
      json_start = queries_text.find("{")
      json_end = queries_text.rfind("}") + 1
      json_str = queries_text[json_start:json_end]
      queries_dict = json.loads(json_str)
      parsed_queries = Queries(**queries_dict)
      content = state["content"] or []
      for q in parsed_queries.queries:
          response = tavily.search(query=q, max_results=2)
          for r in response["results"]:
              content.append(r["content"])
      return {"content": content}
  \<close>
  \<open>research_critique_node\<close> is the same text with \<open>critique\<close> for \<open>task\<close>. What follows the
  model call is \<open>research\<close>, shared by the two.
\<close>

definition research :: "world \<Rightarrow> AgentState \<Rightarrow> msg list \<Rightarrow> node_result" where
  "research w state msgs =
     (let queries_text = model w msgs;
          calls = [Invoke msgs]
      in case parse_queries w (json_str queries_text) of
           Inl e \<Rightarrow> (Inl e, calls)
         | Inr queries \<Rightarrow>
             (case subscript ''content'' (content state) of
                Inl e \<Rightarrow> (Inl e, calls)
              | Inr c \<Rightarrow>
                  (let (content', calls') = search_all w queries (or_empty c) calls
                   in (Inr [Content content'], calls'))))"

text \<open>\<open>prompt.format_prompt(task=t)\<close> and \<open>prompt.format_prompt(critique=t)\<close>, as the
  model receives them: one human message.\<close>

definition research_plan_prompt :: "world \<Rightarrow> string option \<Rightarrow> msg list" where
  "research_plan_prompt w t =
     [HumanMessage (''Generate research queries based on the given task.'' @ nl @
                    format_instructions w @ nl @ ''Task: '' @ fmt t @ nl)]"

definition research_critique_prompt :: "world \<Rightarrow> string option \<Rightarrow> msg list" where
  "research_critique_prompt w t =
     [HumanMessage (''Generate research queries based on the given critique.'' @ nl @
                    format_instructions w @ nl @ ''Critique: '' @ fmt t @ nl)]"

definition research_plan_node :: "world \<Rightarrow> AgentState \<Rightarrow> node_result" where
  "research_plan_node w state =
     (case subscript ''task'' (task state) of
        Inl e \<Rightarrow> (Inl e, [])
      | Inr t \<Rightarrow>
          research w state (research_plan_prompt w t))"

definition research_critique_node :: "world \<Rightarrow> AgentState \<Rightarrow> node_result" where
  "research_critique_node w state =
     (case subscript ''critique'' (critique state) of
        Inl e \<Rightarrow> (Inl e, [])
      | Inr t \<Rightarrow>
          research w state (research_critique_prompt w t))"

text \<open>
  \<^verbatim>\<open>
  def generation_node(state: AgentState):
      content = "\n\n".join(state["content"] or [])
      user_message = HumanMessage(
          content=f"{state['task']}\n\nHere is my plan:\n\n{state['plan']}"
      )
      messages = [
          SystemMessage(content=WRITER_PROMPT.format(content=content)),
          user_message,
      ]
      response = model.invoke(messages)
      return {
          "draft": response.content,
          "revision_number": state.get("revision_number", 1) + 1,
      }
  \<close>
\<close>

definition generation_node :: "world \<Rightarrow> AgentState \<Rightarrow> node_result" where
  "generation_node w state =
     (case subscript ''content'' (content state) of
        Inl e \<Rightarrow> (Inl e, [])
      | Inr c \<Rightarrow>
          (let content' = py_join (nl @ nl) (or_empty c) in
           case subscript ''task'' (task state) of
             Inl e \<Rightarrow> (Inl e, [])
           | Inr t \<Rightarrow>
               (case subscript ''plan'' (plan state) of
                  Inl e \<Rightarrow> (Inl e, [])
                | Inr p \<Rightarrow>
                    (let user_message =
                           HumanMessage (fmt t @ nl @ nl @ ''Here is my plan:'' @ nl @ nl @ fmt p);
                         msgs = [SystemMessage (WRITER_PROMPT content'), user_message];
                         response = model w msgs
                     in case get_default (revision_number state) 1 of
                          None \<Rightarrow> (Inl TypeError, [Invoke msgs])
                        | Some r \<Rightarrow>
                            (Inr [Draft response, Revision_number (r + 1)], [Invoke msgs])))))"

text \<open>
  \<^verbatim>\<open>
  def reflection_node(state: AgentState):
      messages = [
          SystemMessage(content=REFLECTION_PROMPT),
          HumanMessage(content=state["draft"]),
      ]
      response = model.invoke(messages)
      return {"critique": response.content}
  \<close>
\<close>

definition reflection_node :: "world \<Rightarrow> AgentState \<Rightarrow> node_result" where
  "reflection_node w state =
     (case subscript ''draft'' (draft state) of
        Inl e \<Rightarrow> (Inl e, [])
      | Inr d \<Rightarrow>
          (case human d of
             Inl e \<Rightarrow> (Inl e, [])
           | Inr h \<Rightarrow>
               (let msgs = [SystemMessage REFLECTION_PROMPT, h];
                    response = model w msgs
                in (Inr [Critique response], [Invoke msgs]))))"

subsection \<open>The graph\<close>

datatype node = Planner | Generate | Reflect | Research_plan | Research_critique

datatype target = END | Node node

text \<open>
  \<^verbatim>\<open>
  def should_continue(state):
      if state["revision_number"] > state["max_revisions"]:
          return END
      return "reflect"
  \<close>
  Comparing \<open>None\<close> with an integer raises \<open>TypeError\<close>.
\<close>

definition should_continue :: "AgentState \<Rightarrow> error + target" where
  "should_continue state =
     (case subscript ''revision_number'' (revision_number state) of
        Inl e \<Rightarrow> Inl e
      | Inr r \<Rightarrow>
          (case subscript ''max_revisions'' (max_revisions state) of
             Inl e \<Rightarrow> Inl e
           | Inr m \<Rightarrow>
               (case (r, m) of
                  (Some r', Some m') \<Rightarrow> if r' > m' then Inr END else Inr (Node Reflect)
                | _ \<Rightarrow> Inl TypeError)))"

text \<open>
  \<^verbatim>\<open>
  builder.add_node("planner", plan_node)
  builder.add_node("generate", generation_node)
  builder.add_node("reflect", reflection_node)
  builder.add_node("research_plan", research_plan_node)
  builder.add_node("research_critique", research_critique_node)
  builder.set_entry_point("planner")
  builder.add_conditional_edges("generate", should_continue, {END: END, "reflect": "reflect"})
  builder.add_edge("planner", "research_plan")
  builder.add_edge("research_plan", "generate")
  builder.add_edge("reflect", "research_critique")
  builder.add_edge("research_critique", "generate")
  \<close>
\<close>

fun node_fn :: "node \<Rightarrow> world \<Rightarrow> AgentState \<Rightarrow> node_result" where
  "node_fn Planner = plan_node"
| "node_fn Generate = generation_node"
| "node_fn Reflect = reflection_node"
| "node_fn Research_plan = research_plan_node"
| "node_fn Research_critique = research_critique_node"

definition entry_point :: node where
  "entry_point = Planner"

fun edge :: "node \<Rightarrow> AgentState \<Rightarrow> error + target" where
  "edge Generate state = should_continue state"
| "edge Planner state = Inr (Node Research_plan)"
| "edge Research_plan state = Inr (Node Generate)"
| "edge Reflect state = Inr (Node Research_critique)"
| "edge Research_critique state = Inr (Node Generate)"

text \<open>
  Running the compiled graph is the work of the graph library. What the notebook relies
  on: the run starts at the entry point with the caller's state; a node gets the state
  and its result overwrites the keys it names (no key of \<open>AgentState\<close> declares a
  reducer); the edge out of the node, taken on the state so written, gives the next node
  or ends the run; an exception ends the run and reaches the caller.
\<close>

fun write_key :: "AgentState \<Rightarrow> update \<Rightarrow> AgentState" where
  "write_key s (Plan x) = s\<lparr>plan := Val x\<rparr>"
| "write_key s (Content x) = s\<lparr>content := Val x\<rparr>"
| "write_key s (Draft x) = s\<lparr>draft := Val x\<rparr>"
| "write_key s (Critique x) = s\<lparr>critique := Val x\<rparr>"
| "write_key s (Revision_number x) = s\<lparr>revision_number := Val x\<rparr>"

definition merge :: "AgentState \<Rightarrow> update list \<Rightarrow> AgentState" where
  "merge s us = foldl write_key s us"

text \<open>One entry of the run's record: the node run, the calls it made, and the state after
  its result was written (the state before, when the node raised).\<close>

type_synonym step = "node \<times> call list \<times> AgentState"

text \<open>The revisions still allowed, and the place of a node on its way to \<open>generate\<close>:
  together they bound the steps a run has left.\<close>

definition revisions_left :: "AgentState \<Rightarrow> nat" where
  "revisions_left s =
     (case (get_default (revision_number s) 1, max_revisions s) of
        (Some r, Val m) \<Rightarrow> nat (m + 1 - r)
      | _ \<Rightarrow> 0)"

fun distance :: "node \<Rightarrow> nat" where
  "distance Generate = 0"
| "distance Research_plan = 1"
| "distance Research_critique = 1"
| "distance Planner = 2"
| "distance Reflect = 2"

function run_from :: "world \<Rightarrow> node \<Rightarrow> AgentState \<Rightarrow> step list \<Rightarrow> (error + AgentState) \<times> step list" where
  "run_from w n s tr =
     (case fst (node_fn n w s) of
        Inl e \<Rightarrow> (Inl e, tr @ [(n, snd (node_fn n w s), s)])
      | Inr us \<Rightarrow>
          (let s' = merge s us;
               tr' = tr @ [(n, snd (node_fn n w s), s')]
           in case edge n s' of
                Inl e \<Rightarrow> (Inl e, tr')
              | Inr END \<Rightarrow> (Inr s', tr')
              | Inr (Node n') \<Rightarrow> run_from w n' s' tr'))"
  by pat_completeness auto

termination run_from
proof (relation "measure (\<lambda>(w, n, s, tr). 3 * revisions_left s + distance n)", goal_cases)
  case 1
  show ?case by simp
next
  case (2 w n s tr us s' tr' tgt n')
  have keep:
    "\<And>x. revisions_left (s\<lparr>plan := x\<rparr>) = revisions_left s"
    "\<And>x. revisions_left (s\<lparr>content := x\<rparr>) = revisions_left s"
    "\<And>x. revisions_left (s\<lparr>critique := x\<rparr>) = revisions_left s"
    by (simp_all add: revisions_left_def)
  have research_writes: "\<exists>c. us' = [Content c]" if "fst (research w s msgs) = Inr us'" for msgs us'
    using that by (auto simp: research_def Let_def split: sum.splits prod.splits)
  have "3 * revisions_left (merge s us) + distance n' < 3 * revisions_left s + distance n"
  proof (cases n)
    case Planner
    with 2 obtain x where "us = [Plan x]"
      by (auto simp: plan_node_def Let_def split: sum.splits)
    with 2 Planner show ?thesis by (auto simp: merge_def keep)
  next
    case Reflect
    with 2 obtain x where "us = [Critique x]"
      by (auto simp: reflection_node_def Let_def split: sum.splits)
    with 2 Reflect show ?thesis by (auto simp: merge_def keep)
  next
    case Research_plan
    with 2 obtain c where "us = [Content c]"
      by (auto simp: research_plan_node_def split: sum.splits dest: research_writes)
    with 2 Research_plan show ?thesis by (auto simp: merge_def keep)
  next
    case Research_critique
    with 2 obtain c where "us = [Content c]"
      by (auto simp: research_critique_node_def split: sum.splits dest: research_writes)
    with 2 Research_critique show ?thesis by (auto simp: merge_def keep)
  next
    case Generate
    with 2 obtain d r where us: "us = [Draft d, Revision_number (r + 1)]"
      and r: "get_default (revision_number s) 1 = Some r"
      by (auto simp: generation_node_def Let_def split: sum.splits option.splits)
    from 2 Generate us
    have "should_continue (s\<lparr>draft := Val d, revision_number := Val (r + 1)\<rparr>) = Inr (Node n')"
      by (simp add: merge_def)
    then have "n' = Reflect" and "\<exists>m. max_revisions s = Val m \<and> r + 1 \<le> m"
      by (auto simp: should_continue_def subscript_def split: slot.splits if_splits)
    with us r Generate show ?thesis
      by (auto simp: merge_def revisions_left_def get_default_def)
  qed
  with 2 show ?case by simp
qed

declare run_from.simps [simp del]

text \<open>\<open>graph.stream(state, thread)\<close>: the run from the entry point.\<close>

definition run :: "world \<Rightarrow> AgentState \<Rightarrow> (error + AgentState) \<times> step list" where
  "run w s = run_from w entry_point s []"

section \<open>What the properties speak of\<close>

subsection \<open>Lesson 1\<close>

fun is_Converse :: "event \<Rightarrow> bool" where
  "is_Converse (Converse _) = True"
| "is_Converse _ = False"

fun is_RunAction :: "event \<Rightarrow> bool" where
  "is_RunAction (RunAction _ _) = True"
| "is_RunAction _ = False"

text \<open>The number of model invocations in a list of events.\<close>

definition model_calls :: "event list \<Rightarrow> nat" where
  "model_calls log = length (filter is_Converse log)"

text \<open>The assistant text of the turn that starts with the session \<open>agt\<close> and the input
  \<open>next_prompt\<close>, and the session after that turn.\<close>

definition turn_text :: "converse \<Rightarrow> agent \<Rightarrow> string \<Rightarrow> string" where
  "turn_text conv agt next_prompt = conv (system agt) (messages agt @ [(User, next_prompt)])"

definition after_turn :: "converse \<Rightarrow> agent \<Rightarrow> string \<Rightarrow> agent" where
  "after_turn conv agt next_prompt =
     agt\<lparr>messages := messages agt @
            [(User, next_prompt), (Assistant, turn_text conv agt next_prompt)]\<rparr>"


subsection \<open>Lesson 6\<close>

text \<open>The content list of a state, as the nodes read it.\<close>

definition content_of :: "AgentState \<Rightarrow> string list" where
  "content_of s = (case content s of Val xs \<Rightarrow> xs | _ \<Rightarrow> [])"

definition nodes_run :: "step list \<Rightarrow> node list" where
  "nodes_run tr = map fst tr"

definition generate_calls :: "step list \<Rightarrow> nat" where
  "generate_calls tr = length (filter (\<lambda>n. n = Generate) (nodes_run tr))"

definition calls_of :: "step list \<Rightarrow> call list" where
  "calls_of tr = concat (map (\<lambda>(n, calls, s). calls) tr)"

text \<open>The queries of the retrieval calls among some calls, and the snippets these calls
  returned, in call order.\<close>

fun searches :: "call list \<Rightarrow> (string \<times> nat) list" where
  "searches [] = []"
| "searches (Search q k # cs) = (q, k) # searches cs"
| "searches (Invoke m # cs) = searches cs"

definition snippets :: "world \<Rightarrow> call list \<Rightarrow> string list" where
  "snippets w cs = concat (map (\<lambda>(q, k). search w q k) (searches cs))"

text \<open>The nodes from a node to the next \<open>generate\<close>, both included, and the nodes of
  \<open>k\<close> further rounds of revision.\<close>

fun path :: "node \<Rightarrow> node list" where
  "path Planner = [Planner, Research_plan, Generate]"
| "path Research_plan = [Research_plan, Generate]"
| "path Generate = [Generate]"
| "path Reflect = [Reflect, Research_critique, Generate]"
| "path Research_critique = [Research_critique, Generate]"

definition rounds :: "nat \<Rightarrow> node list" where
  "rounds k = concat (replicate k [Reflect, Research_critique, Generate])"

text \<open>A state in which a node and the nodes after it find the keys they read: nothing
  but the decoder can make the run raise from there.\<close>

definition ready :: "node \<Rightarrow> AgentState \<Rightarrow> bool" where
  "ready n s \<longleftrightarrow>
     (\<exists>t. task s = Val t) \<and> content s \<noteq> Missing \<and> revision_number s \<noteq> Null \<and>
     (\<exists>m. max_revisions s = Val m) \<and>
     (n \<noteq> Planner \<longrightarrow> plan s \<noteq> Missing) \<and>
     (n = Reflect \<longrightarrow> (\<exists>d. draft s = Val d)) \<and>
     (n = Research_critique \<longrightarrow> critique s \<noteq> Missing)"

text \<open>A world for the examples: the model answers every prompt with the same payload, the
  decoder knows that payload only, and every search returns the query and one more
  snippet.\<close>

definition dq :: string where
  "dq = [CHR 0x22]"

definition payload :: "string list \<Rightarrow> string" where
  "payload qs =
     ''{'' @ dq @ ''queries'' @ dq @ '': ['' @ py_join '', '' (map (\<lambda>q. dq @ q @ dq) qs) @ '']}''"

definition sample_world :: "string list \<Rightarrow> world" where
  "sample_world qs =
     \<lparr>model = (\<lambda>msgs. ''Here are the queries: '' @ payload qs @ '' Good luck!''),
      format_instructions = ''Return a JSON object.'',
      parse_queries = (\<lambda>s. if s = payload qs then Inr qs else Inl JSONDecodeError),
      search = (\<lambda>q k. [q, ''more on '' @ q])\<rparr>"

text \<open>The state of the notebook's run, with the two counters as parameters, as a graph
  library hands it to the nodes that binds a key nothing has written yet to \<open>None\<close>.\<close>

definition start :: "int \<Rightarrow> int \<Rightarrow> AgentState" where
  "start r m =
     \<lparr>task = Val ''what is the difference between langchain and langsmith'',
      plan = Null, draft = Null, critique = Null, content = Null,
      revision_number = Val r, max_revisions = Val m\<rparr>"

section \<open>Lesson 1: parsing the action line\<close>

lemma strip_prefix_Some: "strip_prefix xs ys = Some r \<longleftrightarrow> ys = xs @ r"
  by (induction xs ys rule: strip_prefix.induct) auto

lemma strip_prefix_append: "strip_prefix xs (xs @ r) = Some r"
  by (simp add: strip_prefix_Some)

lemma split_nl_no_newline: "l \<in> set (split_nl s) \<Longrightarrow> CHR 0x0A \<notin> set l"
  by (induction s arbitrary: l) (auto split: if_splits list.splits)

lemma colon_not_word: "\<not> is_word CHR '':''"
  by (simp add: is_word_def)

text \<open>A match fixes the shape of the string: the literal \<open>Action: \<close>, the name, a colon
  and a space, the argument, and at most one closing newline.\<close>

lemma action_re_Some_shape:
  assumes "action_re a = Some (name, arg)"
  shows "name \<noteq> [] \<and> (\<forall>c\<in>set name. is_word c) \<and> CHR 0x0A \<notin> set arg \<and>
         (a = ''Action: '' @ name @ '': '' @ arg \<or>
          a = ''Action: '' @ name @ '': '' @ arg @ [CHR 0x0A])"
proof -
  from assms obtain r where r: "strip_prefix ''Action: '' a = Some r"
    by (auto simp: action_re_def split: option.splits)
  with assms have n: "takeWhile is_word r = name" "name \<noteq> []"
    by (auto simp: action_re_def Let_def split: option.splits if_splits)
  from assms r obtain r2 where r2: "strip_prefix '': '' (dropWhile is_word r) = Some r2"
    by (auto simp: action_re_def Let_def split: option.splits if_splits)
  from assms r r2 have arg: "takeWhile (\<lambda>c. c \<noteq> CHR 0x0A) r2 = arg"
    and tl: "dropWhile (\<lambda>c. c \<noteq> CHR 0x0A) r2 = [] \<or>
             dropWhile (\<lambda>c. c \<noteq> CHR 0x0A) r2 = [CHR 0x0A]"
    by (auto simp: action_re_def Let_def split: option.splits if_splits)
  have a: "a = ''Action: '' @ r"
    using r by (simp only: strip_prefix_Some)
  have "r = takeWhile is_word r @ dropWhile is_word r"
    by simp
  also have "dropWhile is_word r = '': '' @ r2"
    using r2 by (simp only: strip_prefix_Some)
  finally have r': "r = name @ '': '' @ r2"
    using n by simp
  have "r2 = arg \<or> r2 = arg @ [CHR 0x0A]"
  proof (rule disjE[OF tl])
    assume e: "dropWhile (\<lambda>c. c \<noteq> CHR 0x0A) r2 = []"
    show ?thesis
      using takeWhile_dropWhile_id[of "\<lambda>c. c \<noteq> CHR 0x0A" r2] unfolding e arg by simp
  next
    assume e: "dropWhile (\<lambda>c. c \<noteq> CHR 0x0A) r2 = [CHR 0x0A]"
    show ?thesis
      using takeWhile_dropWhile_id[of "\<lambda>c. c \<noteq> CHR 0x0A" r2] unfolding e arg by simp
  qed
  moreover have "\<forall>c\<in>set name. is_word c"
    using n(1) by (auto dest: set_takeWhileD)
  moreover have "CHR 0x0A \<notin> set arg"
    using arg by (auto dest: set_takeWhileD)
  ultimately show ?thesis
    unfolding a r' using n(2) by blast
qed

lemma action_re_shape_Some:
  assumes "name \<noteq> []" "\<forall>c\<in>set name. is_word c" "CHR 0x0A \<notin> set arg"
  shows "action_re (''Action: '' @ name @ '': '' @ arg) = Some (name, arg)"
proof -
  have t: "takeWhile is_word (name @ '': '' @ arg) = name"
    using assms(2) colon_not_word by (simp add: takeWhile_append2)
  have d: "dropWhile is_word (name @ '': '' @ arg) = '': '' @ arg"
    using assms(2) colon_not_word by (simp add: dropWhile_append2)
  have ta: "takeWhile (\<lambda>c. c \<noteq> CHR 0x0A) arg = arg"
    using assms(3) by (auto simp: takeWhile_eq_all_conv)
  have da: "dropWhile (\<lambda>c. c \<noteq> CHR 0x0A) arg = []"
    using assms(3) by (auto simp: dropWhile_eq_Nil_conv)
  have s1: "strip_prefix ''Action: '' (''Action: '' @ name @ '': '' @ arg) =
              Some (name @ '': '' @ arg)"
    by (rule strip_prefix_append)
  have s2: "strip_prefix '': '' ('': '' @ arg) = Some arg"
    by (rule strip_prefix_append)
  show ?thesis
    unfolding action_re_def s1 using t d s2 ta da assms(1) by (simp add: Let_def)
qed

lemma action_re_line:
  assumes "CHR 0x0A \<notin> set l"
  shows "action_re l = Some (name, arg) \<longleftrightarrow>
           l = ''Action: '' @ name @ '': '' @ arg \<and> name \<noteq> [] \<and> (\<forall>c\<in>set name. is_word c)"
proof
  assume m: "action_re l = Some (name, arg)"
  from action_re_Some_shape[OF m] assms
  show "l = ''Action: '' @ name @ '': '' @ arg \<and> name \<noteq> [] \<and> (\<forall>c\<in>set name. is_word c)"
    by auto
next
  assume r: "l = ''Action: '' @ name @ '': '' @ arg \<and> name \<noteq> [] \<and> (\<forall>c\<in>set name. is_word c)"
  with assms have "CHR 0x0A \<notin> set arg" by auto
  with r show "action_re l = Some (name, arg)"
    using action_re_shape_Some[of name arg] by simp
qed

lemma map_filter_first:
  assumes "\<forall>x\<in>set pre. f x = None" "f l = Some r"
  shows "List.map_filter f (pre @ l # post) = r # List.map_filter f post"
  using assms by (induction pre) auto

text \<open>The name class of the pattern is wider than the ASCII letters, digits and
  underscore: \<open>\w\<close> takes the e with an acute accent (code point 233).\<close>

lemma action_name_beyond_ascii:
  "action_lines (''Action: caf'' @ [CHR 0xE9] @ '': x'') = [(''caf'' @ [CHR 0xE9], ''x'')]"
  by (simp add: action_lines_def action_re_def is_word_def)

text \<open>
  C2, as stated, fails: the argument is not trimmed. After the colon the pattern takes
  exactly one space; whatever follows, further spaces at either end included, is the
  argument.
\<close>

theorem action_argument_untrimmed_counterexample:
  "action_lines ''Action: calculate:  4 * 7 '' = [(''calculate'', '' 4 * 7 '')] \<and>
   '' 4 * 7 '' \<noteq> ''4 * 7''"
  by (simp add: action_lines_def action_re_def is_word_def)

text \<open>
  C2, amended: the parse step takes the lines of the assistant text in order and keeps the
  first line that matches; the lines that match are exactly those of the form
  \<open>Action: <name>: <argument>\<close> with a non-empty name of word characters of the pattern
  language, and the argument is the rest of the line as it stands, untrimmed. The line
  \<open>Action: average_dog_weight: Toy Poodle\<close> gives the name \<open>average_dog_weight\<close> and the
  argument \<open>Toy Poodle\<close>.
\<close>

theorem action_first_match_verbatim:
  assumes "split_nl text = pre @ line # post"
      and "\<forall>l\<in>set pre. action_re l = None"
      and "action_re line = Some (name, arg)"
  shows "(\<exists>rest. action_lines text = (name, arg) # rest) \<and>
         line = ''Action: '' @ name @ '': '' @ arg \<and>
         (\<forall>l\<in>set (split_nl text). \<forall>n a.
            action_re l = Some (n, a) \<longleftrightarrow>
              l = ''Action: '' @ n @ '': '' @ a \<and> n \<noteq> [] \<and> (\<forall>c\<in>set n. is_word c)) \<and>
         action_re ''Action: average_dog_weight: Toy Poodle'' =
           Some (''average_dog_weight'', ''Toy Poodle'')"
proof -
  have first: "\<exists>rest. action_lines text = (name, arg) # rest"
    unfolding action_lines_def assms(1)
    using map_filter_first[OF assms(2) assms(3)] by blast
  have "line \<in> set (split_nl text)"
    using assms(1) by simp
  then have "CHR 0x0A \<notin> set line"
    by (rule split_nl_no_newline)
  then have shape: "line = ''Action: '' @ name @ '': '' @ arg"
    using assms(3) by (simp add: action_re_line)
  have all: "\<forall>l\<in>set (split_nl text). \<forall>n a.
            action_re l = Some (n, a) \<longleftrightarrow>
              l = ''Action: '' @ n @ '': '' @ a \<and> n \<noteq> [] \<and> (\<forall>c\<in>set n. is_word c)"
    using split_nl_no_newline action_re_line by blast
  have ex: "action_re ''Action: average_dog_weight: Toy Poodle'' =
           Some (''average_dog_weight'', ''Toy Poodle'')"
    by (simp add: action_re_def is_word_def)
  from first shape all ex show ?thesis by blast
qed

theorem action_first_match_verbatim_witness:
  "(\<exists>rest. action_lines (''Thought: look it up'' @ nl @
                          ''Action: average_dog_weight: Toy Poodle'' @ nl @
                          ''Action: calculate: 7 + 7'')
      = (''average_dog_weight'', ''Toy Poodle'') # rest)"
proof -
  let ?text = "''Thought: look it up'' @ nl @ ''Action: average_dog_weight: Toy Poodle'' @ nl @
               ''Action: calculate: 7 + 7''"
  have h1: "split_nl ?text =
              [''Thought: look it up''] @ ''Action: average_dog_weight: Toy Poodle'' #
              [''Action: calculate: 7 + 7'']"
    by (simp add: nl_def)
  have h2: "\<forall>l\<in>set [''Thought: look it up'']. action_re l = None"
    by (simp add: action_re_def)
  have h3: "action_re ''Action: average_dog_weight: Toy Poodle'' =
              Some (''average_dog_weight'', ''Toy Poodle'')"
    by (simp add: action_re_def is_word_def)
  from action_first_match_verbatim[OF h1 h2 h3] show ?thesis by blast
qed

section \<open>Lesson 1: the loop, turn by turn\<close>

lemma agent_call_eq:
  "agent_call conv agt p = (turn_text conv agt p, after_turn conv agt p)"
  by (simp add: agent_call_def execute_def turn_text_def after_turn_def Let_def)


lemma query_loop_no_action:
  assumes "i < max_turns"
      and "action_lines (turn_text conv agt p) = []"
  shows "query_loop conv known max_turns i agt p log =
           (Inr PyNone, after_turn conv agt p,
            log @ [Converse (messages agt @ [(User, p)]), Print (turn_text conv agt p)])"
  using assms by (subst query_loop.simps) (simp add: agent_call_eq)

lemma query_loop_unknown:
  assumes "i < max_turns"
      and "action_lines (turn_text conv agt p) = (name, arg) # rest"
      and "known name = None"
  shows "query_loop conv known max_turns i agt p log =
           (Inl (Exception (''Unknown action: '' @ name @ '': '' @ arg)), after_turn conv agt p,
            log @ [Converse (messages agt @ [(User, p)]), Print (turn_text conv agt p)])"
  using assms by (subst query_loop.simps) (simp add: agent_call_eq)


lemma query_loop_known:
  assumes "i < max_turns"
      and "action_lines (turn_text conv agt p) = (name, arg) # rest"
      and "known name = Some f" and "f arg = Inr obs"
  shows "query_loop conv known max_turns i agt p log =
           query_loop conv known max_turns (i + 1) (after_turn conv agt p)
             (''Observation: '' @ obs)
             (log @ [Converse (messages agt @ [(User, p)]), Print (turn_text conv agt p),
                     Print ('' -- running '' @ name @ '' '' @ arg), RunAction name arg,
                     Print (''Observation: '' @ obs)])"
  using assms by (subst query_loop.simps) (simp add: agent_call_eq)




text \<open>
  C4, as stated, fails: \<open>query\<close> ends with a bare \<open>return\<close>. On a text without an action
  line the run ends, and what the caller gets back is \<open>None\<close>, not the text.
\<close>

theorem final_text_not_returned_counterexample:
  "action_lines ''Answer: 42'' = [] \<and>
   fst (query (\<lambda>sys msgs. ''Answer: 42'') (known_actions (\<lambda>what. Inl (ActionFailed what)))
          ''How much is 6 * 7?'' 5) = Inr PyNone \<and>
   PyNone \<noteq> PyStr ''Answer: 42''"
  by (simp add: query_def query_loop_no_action turn_text_def action_lines_def action_re_def)

text \<open>
  C4, amended: in every turn of the loop whose assistant text has no action line, the loop
  ends on that turn without an exception, no action is run and the model is not called
  again; \<open>query\<close> returns \<open>None\<close>, and the full assistant text is the last line printed and
  the last message of the session.
\<close>

theorem no_action_line_ends_loop:
  assumes "i < max_turns"
      and "action_lines (turn_text conv agt p) = []"
  shows "query_loop conv known max_turns i agt p log =
           (Inr PyNone,
            agt\<lparr>messages := messages agt @ [(User, p), (Assistant, turn_text conv agt p)]\<rparr>,
            log @ [Converse (messages agt @ [(User, p)]), Print (turn_text conv agt p)])"
  using query_loop_no_action[OF assms] by (simp add: after_turn_def)

theorem no_action_line_ends_loop_witness:
  "query (\<lambda>sys msgs. ''Answer: 42'') (known_actions (\<lambda>what. Inl (ActionFailed what)))
     ''How much is 6 * 7?'' 5 =
     (Inr PyNone,
      \<lparr>system = prompt,
       messages = [(User, ''How much is 6 * 7?''), (Assistant, ''Answer: 42'')]\<rparr>,
      [Converse [(User, ''How much is 6 * 7?'')], Print ''Answer: 42''])"
proof -
  let ?conv = "\<lambda>(sys::string) (msgs::(role \<times> string) list). ''Answer: 42''"
  have h1: "(0::int) < 5" by simp
  have h2: "action_lines (turn_text ?conv (Agent prompt) ''How much is 6 * 7?'') = []"
    by (simp add: turn_text_def action_lines_def action_re_def)
  show ?thesis
    unfolding query_def
    using no_action_line_ends_loop[OF h1 h2, of "known_actions (\<lambda>what. Inl (ActionFailed what))" "[]"]
    by (simp add: turn_text_def Agent_def)
qed




text \<open>
  C6: in every turn of the loop whose first action line names an action that is not in
  the registry, the loop raises the unknown-action exception at once: after the one model
  call of that turn the model is not called again, and no action is run. When the name is registered and its callable
  returns, the callable is applied to the parsed argument and its result is the
  observation that opens the next turn.
\<close>

theorem unknown_action_aborts:
  assumes "i < max_turns"
      and "action_lines (turn_text conv agt p) = (name, arg) # rest"
  shows "(known name = None \<longrightarrow>
            query_loop conv known max_turns i agt p log =
              (Inl (Exception (''Unknown action: '' @ name @ '': '' @ arg)),
               after_turn conv agt p,
               log @ [Converse (messages agt @ [(User, p)]), Print (turn_text conv agt p)]) \<and>
            model_calls (snd (snd (query_loop conv known max_turns i agt p log))) =
              model_calls log + 1 \<and>
            filter is_RunAction (snd (snd (query_loop conv known max_turns i agt p log))) =
              filter is_RunAction log) \<and>
         (\<forall>f obs. known name = Some f \<and> f arg = Inr obs \<longrightarrow>
            query_loop conv known max_turns i agt p log =
              query_loop conv known max_turns (i + 1) (after_turn conv agt p)
                (''Observation: '' @ obs)
                (log @ [Converse (messages agt @ [(User, p)]), Print (turn_text conv agt p),
                        Print ('' -- running '' @ name @ '' '' @ arg), RunAction name arg,
                        Print (''Observation: '' @ obs)]))"
proof -
  have unknown: "query_loop conv known max_turns i agt p log =
              (Inl (Exception (''Unknown action: '' @ name @ '': '' @ arg)),
               after_turn conv agt p,
               log @ [Converse (messages agt @ [(User, p)]), Print (turn_text conv agt p)]) \<and>
            model_calls (snd (snd (query_loop conv known max_turns i agt p log))) =
              model_calls log + 1 \<and>
            filter is_RunAction (snd (snd (query_loop conv known max_turns i agt p log))) =
              filter is_RunAction log"
    if "known name = None"
    by (simp add: query_loop_unknown[where known=known, OF assms that] model_calls_def)
  with query_loop_known[where known=known, OF assms] show ?thesis
    by blast
qed

theorem unknown_action_aborts_witness:
  "query (\<lambda>sys msgs. ''Action: fly: to the moon'')
     (known_actions (\<lambda>what. Inl (ActionFailed what))) ''Can I fly?'' 5 =
     (Inl (Exception ''Unknown action: fly: to the moon''),
      \<lparr>system = prompt,
       messages = [(User, ''Can I fly?''), (Assistant, ''Action: fly: to the moon'')]\<rparr>,
      [Converse [(User, ''Can I fly?'')], Print ''Action: fly: to the moon'']) \<and>
   snd (snd (query (\<lambda>sys msgs. if length msgs = 1 then ''Action: average_dog_weight: Toy Poodle''
                                else ''Answer: 7 lbs'')
     (known_actions (\<lambda>what. Inl (ActionFailed what))) ''How heavy is a toy poodle?'' 5)) =
     [Converse [(User, ''How heavy is a toy poodle?'')],
      Print ''Action: average_dog_weight: Toy Poodle'',
      Print '' -- running average_dog_weight Toy Poodle'',
      RunAction ''average_dog_weight'' ''Toy Poodle'',
      Print ''Observation: a toy poodles average weight is 7 lbs'',
      Converse [(User, ''How heavy is a toy poodle?''),
                (Assistant, ''Action: average_dog_weight: Toy Poodle''),
                (User, ''Observation: a toy poodles average weight is 7 lbs'')],
      Print ''Answer: 7 lbs'']"
proof -
  let ?conv = "\<lambda>(sys::string) (msgs::(role \<times> string) list). ''Action: fly: to the moon''"
  let ?conv2 = "\<lambda>(sys::string) (msgs::(role \<times> string) list).
                  if length msgs = 1 then ''Action: average_dog_weight: Toy Poodle''
                  else ''Answer: 7 lbs''"
  let ?known = "known_actions (\<lambda>what. Inl (ActionFailed what))"
  have h1: "(0::int) < 5" by simp
  have h2: "action_lines (turn_text ?conv (Agent prompt) ''Can I fly?'') =
              (''fly'', ''to the moon'') # []"
    by (simp add: turn_text_def action_lines_def action_re_def is_word_def)
  have h3: "?known ''fly'' = None"
    by (simp add: known_actions_def)
  have unknown: "query ?conv ?known ''Can I fly?'' 5 =
     (Inl (Exception ''Unknown action: fly: to the moon''),
      \<lparr>system = prompt,
       messages = [(User, ''Can I fly?''), (Assistant, ''Action: fly: to the moon'')]\<rparr>,
      [Converse [(User, ''Can I fly?'')], Print ''Action: fly: to the moon''])"
    unfolding query_def
    using unknown_action_aborts[OF h1 h2, of ?known "[]"] h3
    by (simp add: turn_text_def after_turn_def Agent_def)
  have k2: "action_lines (turn_text ?conv2 (Agent prompt) ''How heavy is a toy poodle?'') =
              (''average_dog_weight'', ''Toy Poodle'') # []"
    by (simp add: turn_text_def action_lines_def action_re_def is_word_def Agent_def)
  have k3: "?known ''average_dog_weight'' = Some (\<lambda>name. Inr (average_dog_weight name)) \<and>
            (\<lambda>name. Inr (average_dog_weight name)) ''Toy Poodle''
              = (Inr ''a toy poodles average weight is 7 lbs'' :: error + string)"
    by (simp add: known_actions_def average_dog_weight_def)
  have step: "query ?conv2 ?known ''How heavy is a toy poodle?'' 5 =
      query_loop ?conv2 ?known 5 1
        (after_turn ?conv2 (Agent prompt) ''How heavy is a toy poodle?'')
        ''Observation: a toy poodles average weight is 7 lbs''
        [Converse [(User, ''How heavy is a toy poodle?'')],
         Print ''Action: average_dog_weight: Toy Poodle'',
         Print '' -- running average_dog_weight Toy Poodle'',
         RunAction ''average_dog_weight'' ''Toy Poodle'',
         Print ''Observation: a toy poodles average weight is 7 lbs'']"
    unfolding query_def
    using unknown_action_aborts[OF h1 k2, of ?known "[]"] k3
    by (simp add: turn_text_def Agent_def)
  have known: "snd (snd (query ?conv2 ?known ''How heavy is a toy poodle?'' 5)) =
     [Converse [(User, ''How heavy is a toy poodle?'')],
      Print ''Action: average_dog_weight: Toy Poodle'',
      Print '' -- running average_dog_weight Toy Poodle'',
      RunAction ''average_dog_weight'' ''Toy Poodle'',
      Print ''Observation: a toy poodles average weight is 7 lbs'',
      Converse [(User, ''How heavy is a toy poodle?''),
                (Assistant, ''Action: average_dog_weight: Toy Poodle''),
                (User, ''Observation: a toy poodles average weight is 7 lbs'')],
      Print ''Answer: 7 lbs'']"
    unfolding step
    by (simp add: query_loop_no_action turn_text_def after_turn_def Agent_def
          action_lines_def action_re_def)
  from unknown known show ?thesis by (rule conjI)
qed

section \<open>Lesson 6: the payload\<close>


lemma merge_Nil [simp]: "merge s [] = s"
  by (simp add: merge_def)

lemma merge_Cons [simp]: "merge s (u # us) = merge (write_key s u) us"
  by (simp add: merge_def)

lemma search_all_eq:
  "search_all w qs cont calls =
     (cont @ concat (map (\<lambda>q. search w q 2) qs), calls @ map (\<lambda>q. Search q 2) qs)"
  by (induction qs arbitrary: cont calls) auto











lemma research_fails:
  assumes "parse_queries w (json_str (model w msgs)) = Inl e"
  shows "research w s msgs = (Inl e, [Invoke msgs])"
  using assms by (simp add: research_def Let_def)

lemma research_succeeds:
  assumes "parse_queries w (json_str (model w msgs)) = Inr qs"
      and "content s \<noteq> Missing"
  shows "research w s msgs =
           (Inr [Content (content_of s @ concat (map (\<lambda>q. search w q 2) qs))],
            Invoke msgs # map (\<lambda>q. Search q 2) qs)"
  using assms
  by (cases "content s")
     (simp_all add: research_def Let_def subscript_def or_empty_def content_of_def search_all_eq)

lemma searches_map_Search [simp]: "searches (map (\<lambda>q. Search q k) qs) = map (\<lambda>q. (q, k)) qs"
  by (induction qs) auto


section \<open>Lesson 6: one step of the run\<close>


lemma run_from_node_error:
  assumes "fst (node_fn n w s) = Inl e"
  shows "run_from w n s tr = (Inl e, tr @ [(n, snd (node_fn n w s), s)])"
  using assms by (subst run_from.simps) simp

lemma run_from_edge_error:
  assumes "fst (node_fn n w s) = Inr us" "edge n (merge s us) = Inl e"
  shows "run_from w n s tr = (Inl e, tr @ [(n, snd (node_fn n w s), merge s us)])"
  using assms by (subst run_from.simps) (simp add: Let_def)

lemma run_from_end:
  assumes "fst (node_fn n w s) = Inr us" "edge n (merge s us) = Inr END"
  shows "run_from w n s tr = (Inr (merge s us), tr @ [(n, snd (node_fn n w s), merge s us)])"
  using assms by (subst run_from.simps) (simp add: Let_def)

lemma run_from_next:
  assumes "fst (node_fn n w s) = Inr us" "edge n (merge s us) = Inr (Node n')"
  shows "run_from w n s tr =
           run_from w n' (merge s us) (tr @ [(n, snd (node_fn n w s), merge s us)])"
  using assms by (subst run_from.simps) (simp add: Let_def)

text \<open>What a node that returns writes.\<close>

lemma research_writes:
  assumes "fst (research w s msgs) = Inr us"
  shows "\<exists>qs. us = [Content (content_of s @ concat (map (\<lambda>q. search w q 2) qs))] \<and>
              snd (research w s msgs) = Invoke msgs # map (\<lambda>q. Search q 2) qs"
proof (cases "parse_queries w (json_str (model w msgs))")
  case (Inl e)
  with assms show ?thesis by (simp add: research_fails)
next
  case (Inr qs)
  show ?thesis
  proof (cases "content s = Missing")
    case True
    with assms Inr show ?thesis
      by (simp add: research_def Let_def subscript_def)
  next
    case False
    from research_succeeds[OF Inr False] assms show ?thesis by auto
  qed
qed

lemma node_writes:
  assumes "fst (node_fn n w s) = Inr us"
  shows "(n = Planner \<longrightarrow> (\<exists>x m. us = [Plan x] \<and> snd (node_fn n w s) = [Invoke m])) \<and>
         (n = Reflect \<longrightarrow> (\<exists>x m. us = [Critique x] \<and> snd (node_fn n w s) = [Invoke m])) \<and>
         (n = Generate \<longrightarrow>
            (\<exists>d r m. us = [Draft d, Revision_number (r + 1)] \<and>
               get_default (revision_number s) 1 = Some r \<and> snd (node_fn n w s) = [Invoke m])) \<and>
         (n = Research_plan \<or> n = Research_critique \<longrightarrow>
            (\<exists>qs m. us = [Content (content_of s @ concat (map (\<lambda>q. search w q 2) qs))] \<and>
               snd (node_fn n w s) = Invoke m # map (\<lambda>q. Search q 2) qs))"
proof (cases n)
  case Planner
  with assms show ?thesis
    by (auto simp: plan_node_def Let_def split: sum.splits)
next
  case Generate
  with assms show ?thesis
    by (auto simp: generation_node_def Let_def split: sum.splits option.splits)
next
  case Reflect
  with assms show ?thesis
    by (auto simp: reflection_node_def Let_def split: sum.splits)
next
  case Research_plan
  with assms show ?thesis
    by (auto simp: research_plan_node_def split: sum.splits dest!: research_writes)
next
  case Research_critique
  with assms show ?thesis
    by (auto simp: research_critique_node_def split: sum.splits dest!: research_writes)
qed

lemma snippets_Invoke [simp]: "snippets w (Invoke m # cs) = snippets w cs"
  by (simp add: snippets_def)

lemma snippets_Nil [simp]: "snippets w [] = []"
  by (simp add: snippets_def)

lemma snippets_Search:
  "snippets w (map (\<lambda>q. Search q k) qs) = concat (map (\<lambda>q. search w q k) qs)"
  by (induction qs) (auto simp: snippets_def)

lemma snippets_append: "snippets w (xs @ ys) = snippets w xs @ snippets w ys"
proof (induction xs)
  case Nil
  then show ?case by simp
next
  case (Cons c cs)
  then show ?case by (cases c) (auto simp: snippets_def)
qed

lemma content_of_update [simp]:
  "content_of (s\<lparr>plan := x\<rparr>) = content_of s"
  "content_of (s\<lparr>draft := x\<rparr>) = content_of s"
  "content_of (s\<lparr>critique := x\<rparr>) = content_of s"
  "content_of (s\<lparr>revision_number := r\<rparr>) = content_of s"
  "content_of (s\<lparr>content := Val c\<rparr>) = c"
  by (simp_all add: content_of_def)

text \<open>The effect of a node that returns on the three keys that steer the run.\<close>

lemma node_effect:
  assumes "fst (node_fn n w s) = Inr us"
  shows "max_revisions (merge s us) = max_revisions s"
    and "content_of (merge s us) = content_of s @ snippets w (snd (node_fn n w s))"
    and "n \<noteq> Generate \<Longrightarrow> revision_number (merge s us) = revision_number s"
    and "n = Generate \<Longrightarrow>
           \<exists>r. get_default (revision_number s) 1 = Some r \<and>
               revision_number (merge s us) = Val (r + 1)"
  using node_writes[OF assms] by (cases n; auto simp: snippets_Search)+

lemma edge_target:
  assumes "edge n s = Inr t"
  shows "n = Planner \<Longrightarrow> t = Node Research_plan"
    and "n = Research_plan \<Longrightarrow> t = Node Generate"
    and "n = Reflect \<Longrightarrow> t = Node Research_critique"
    and "n = Research_critique \<Longrightarrow> t = Node Generate"
    and "n = Generate \<Longrightarrow>
           \<exists>r m. revision_number s = Val r \<and> max_revisions s = Val m \<and>
                 t = (if r > m then END else Node Reflect)"
  using assms
  by (auto simp: should_continue_def subscript_def split: slot.splits if_splits)


section \<open>Lesson 6: whole runs\<close>


lemma nodes_run_snoc [simp]: "nodes_run (tr @ [(n, c, s)]) = nodes_run tr @ [n]"
  by (simp add: nodes_run_def)

lemma rounds_Suc: "rounds (Suc k) = [Reflect, Research_critique, Generate] @ rounds k"
  by (simp add: rounds_def)

lemma nodes_run_from:
  assumes "run_from w n s tr0 = (Inr sf, tr)"
      and "max_revisions s = Val m"
      and "get_default (revision_number s) 1 = Some r"
  shows "nodes_run tr = nodes_run tr0 @ path n @ rounds (nat (max 1 (m + 1 - r)) - 1)"
  using assms
proof (induction w n s tr0 arbitrary: r rule: run_from.induct)
  case (1 w n s tr0)
  obtain us where us: "fst (node_fn n w s) = Inr us"
    using "1.prems"(1) by (cases "fst (node_fn n w s)") (auto simp: run_from_node_error)
  let ?s' = "merge s us"
  let ?tr' = "tr0 @ [(n, snd (node_fn n w s), ?s')]"
  obtain t where t: "edge n ?s' = Inr t"
    using "1.prems"(1) us by (cases "edge n ?s'") (auto simp: run_from_edge_error)
  note eff = node_effect[OF us]
  have m': "max_revisions ?s' = Val m"
    using eff(1) "1.prems"(2) by simp
  show ?case
  proof (cases t)
    case END
    with t have g: "n = Generate"
      using edge_target(1-4)[OF t] by (cases n) auto
    from edge_target(5)[OF t g] END m' obtain r' where
      r': "revision_number ?s' = Val r'" "r' > m"
      by (auto split: if_splits)
    from eff(4)[OF g] "1.prems"(3) r' have "r + 1 > m" by auto
    then have k: "nat (max 1 (m + 1 - r)) - 1 = 0" by simp
    from run_from_end[OF us t[unfolded END], of tr0] "1.prems"(1)
    have "tr = ?tr'" by simp
    then show ?thesis
      unfolding k using g by (simp add: rounds_def)
  next
    case (Node n')
    have run: "run_from w n' ?s' ?tr' = (Inr sf, tr)"
      using run_from_next[OF us t[unfolded Node], of tr0] "1.prems"(1) by simp
    show ?thesis
    proof (cases "n = Generate")
      case False
      then have r': "get_default (revision_number ?s') 1 = Some r"
        using eff(3) "1.prems"(3) by simp
      from "1.IH"[OF us refl refl t Node run m' r']
      have "nodes_run tr = nodes_run ?tr' @ path n' @ rounds (nat (max 1 (m + 1 - r)) - 1)" .
      moreover have "path n = n # path n'"
        using False edge_target(1-4)[OF t] Node by (cases n) auto
      ultimately show ?thesis by simp
    next
      case True
      from edge_target(5)[OF t True] Node m' obtain r' where
        r': "revision_number ?s' = Val r'" "r' \<le> m" and n': "n' = Reflect"
        by (auto split: if_splits)
      from eff(4)[OF True] "1.prems"(3) r' have rr: "r' = r + 1" by auto
      have g': "get_default (revision_number ?s') 1 = Some (r + 1)"
        using r'(1) rr by (simp add: get_default_def)
      have keq: "nat (max 1 (m + 1 - r)) - 1 = Suc (nat (max 1 (m + 1 - (r + 1))) - 1)"
        using r'(2) rr by simp
      from "1.IH"[OF us refl refl t Node run m' g']
      have "nodes_run tr = nodes_run ?tr' @ path n' @ rounds (nat (max 1 (m + 1 - (r + 1))) - 1)" .
      then show ?thesis
        unfolding keq rounds_Suc using True n' by simp
    qed
  qed
qed

lemma generate_calls_rounds:
  "length (filter (\<lambda>n. n = Generate) (rounds k)) = k"
  by (induction k) (simp_all add: rounds_def)

lemma content_run_from:
  assumes "run_from w n s tr0 = (res, tr)"
  shows "\<exists>new. tr = tr0 @ new \<and>
           sorted_wrt prefix (content_of s # map (\<lambda>(n, calls, s). content_of s) new) \<and>
           (\<forall>sf. res = Inr sf \<longrightarrow> content_of sf = content_of s @ snippets w (calls_of new))"
  using assms
proof (induction w n s tr0 rule: run_from.induct)
  case (1 w n s tr0)
  show ?case
  proof (cases "fst (node_fn n w s)")
    case (Inl e)
    from run_from_node_error[OF Inl, of tr0] "1.prems"
    have "tr = tr0 @ [(n, snd (node_fn n w s), s)]" "res = Inl e" by auto
    then show ?thesis by simp
  next
    case (Inr us)
    let ?c = "snd (node_fn n w s)"
    let ?s' = "merge s us"
    let ?tr' = "tr0 @ [(n, ?c, ?s')]"
    note eff = node_effect[OF Inr]
    have pre: "prefix (content_of s) (content_of ?s')"
      using eff(2) by simp
    show ?thesis
    proof (cases "edge n ?s'")
      case (Inl e)
      from run_from_edge_error[OF Inr Inl, of tr0] "1.prems"
      have "tr = ?tr'" "res = Inl e" by auto
      then show ?thesis using pre by simp
    next
      case t: (Inr t)
      show ?thesis
      proof (cases t)
        case END
        from run_from_end[OF Inr t[unfolded END], of tr0] "1.prems"
        have "tr = ?tr'" "res = Inr ?s'" by auto
        then show ?thesis using pre eff(2) by (simp add: calls_of_def)
      next
        case (Node n')
        have run: "run_from w n' ?s' ?tr' = (res, tr)"
          using run_from_next[OF Inr t[unfolded Node], of tr0] "1.prems" by simp
        from "1.IH"[OF Inr refl refl t Node run] obtain new where
          new: "tr = ?tr' @ new"
          and srt: "sorted_wrt prefix (content_of ?s' # map (\<lambda>(n, calls, s). content_of s) new)"
          and fin: "\<forall>sf. res = Inr sf \<longrightarrow> content_of sf = content_of ?s' @ snippets w (calls_of new)"
          by blast
        let ?new = "(n, ?c, ?s') # new"
        have 1: "tr = tr0 @ ?new" using new by simp
        have "\<forall>y\<in>set (map (\<lambda>(n, calls, s). content_of s) new). prefix (content_of ?s') y"
          using srt by simp
        then have "\<forall>y\<in>set (map (\<lambda>(n, calls, s). content_of s) new). prefix (content_of s) y"
          using pre by (meson prefix_order.trans)
        then have 2: "sorted_wrt prefix (content_of s # map (\<lambda>(n, calls, s). content_of s) ?new)"
          using srt pre by simp
        have 3: "\<forall>sf. res = Inr sf \<longrightarrow> content_of sf = content_of s @ snippets w (calls_of ?new)"
          using fin eff(2) by (simp add: calls_of_def snippets_append)
        from 1 2 3 show ?thesis by blast
      qed
    qed
  qed
qed


text \<open>A run from a ready state, with a decoder that accepts what the model writes,
  reaches the end.\<close>

lemma ready_node_returns:
  assumes "\<forall>x. \<not> isl (parse_queries w x)" "ready n s"
  shows "\<exists>us. fst (node_fn n w s) = Inr us"
proof -
  have res: "\<exists>us. fst (research w s msgs) = Inr us" for msgs
  proof -
    from assms(1) have "\<not> isl (parse_queries w (json_str (model w msgs)))"
      by blast
    then obtain qs where "parse_queries w (json_str (model w msgs)) = Inr qs"
      by (cases "parse_queries w (json_str (model w msgs))") auto
    moreover have "content s \<noteq> Missing" using assms(2) by (simp add: ready_def)
    ultimately show ?thesis by (simp add: research_succeeds)
  qed
  show ?thesis
  proof (cases n)
    case Planner
    with assms(2) show ?thesis
      by (auto simp: ready_def plan_node_def subscript_def human_def Let_def)
  next
    case Generate
    with assms(2) show ?thesis
      by (cases "content s"; cases "plan s"; cases "revision_number s")
         (auto simp: ready_def generation_node_def subscript_def get_default_def Let_def)
  next
    case Reflect
    with assms(2) show ?thesis
      by (auto simp: ready_def reflection_node_def subscript_def human_def Let_def)
  next
    case Research_plan
    with assms(2) res show ?thesis
      by (auto simp: ready_def research_plan_node_def subscript_def)
  next
    case Research_critique
    with assms(2) res show ?thesis
      by (cases "critique s") (auto simp: ready_def research_critique_node_def subscript_def)
  qed
qed

lemma ready_step:
  assumes "ready n s" "fst (node_fn n w s) = Inr us"
  shows "\<exists>t. edge n (merge s us) = Inr t \<and> (\<forall>n'. t = Node n' \<longrightarrow> ready n' (merge s us))"
proof (cases n)
  case Planner
  with assms node_writes[OF assms(2)] show ?thesis by (auto simp: ready_def)
next
  case Generate
  with assms node_writes[OF assms(2)] show ?thesis
    by (auto simp: ready_def should_continue_def subscript_def)
next
  case Reflect
  with assms node_writes[OF assms(2)] show ?thesis by (auto simp: ready_def)
next
  case Research_plan
  with assms node_writes[OF assms(2)] show ?thesis by (auto simp: ready_def)
next
  case Research_critique
  with assms node_writes[OF assms(2)] show ?thesis by (auto simp: ready_def)
qed

lemma run_from_reaches_end:
  assumes "\<forall>x. \<not> isl (parse_queries w x)" "ready n s"
  shows "\<exists>sf. fst (run_from w n s tr) = Inr sf"
  using assms
proof (induction w n s tr rule: run_from.induct)
  case (1 w n s tr)
  from ready_node_returns[OF "1.prems"] obtain us where
    us: "fst (node_fn n w s) = Inr us" by blast
  from ready_step[OF "1.prems"(2) us] obtain t where
    t: "edge n (merge s us) = Inr t" and nx: "\<forall>n'. t = Node n' \<longrightarrow> ready n' (merge s us)"
    by blast
  show ?case
  proof (cases t)
    case END
    then show ?thesis using run_from_end[OF us t[unfolded END], of tr] by simp
  next
    case (Node n')
    with nx have "ready n' (merge s us)" by simp
    from "1.IH"[OF us refl refl t Node "1.prems"(1) this]
    show ?thesis using run_from_next[OF us t[unfolded Node], of tr] by simp
  qed
qed

lemma run_reaches_end:
  assumes "\<forall>x. \<not> isl (parse_queries w x)" "ready Planner s"
  shows "\<exists>sf. fst (run w s) = Inr sf"
  unfolding run_def entry_point_def using assms by (rule run_from_reaches_end)

text \<open>
  C1, as stated, fails: started with \<open>revision_number = 1\<close> and \<open>max_revisions = 2\<close> the
  run calls \<open>generate\<close> twice, not three times, and then ends with \<open>revision_number = 3\<close>.
\<close>

theorem two_generate_calls_counterexample:
  "nodes_run (snd (run (sample_world [''a'']) (start 1 2))) =
     [Planner, Research_plan, Generate, Reflect, Research_critique, Generate] \<and>
   generate_calls (snd (run (sample_world [''a'']) (start 1 2))) = 2 \<and>
   map_sum id revision_number (fst (run (sample_world [''a'']) (start 1 2))) = Inr (Val 3)"
  by code_simp

text \<open>
  C1, amended: a run that starts with \<open>revision_number = 1\<close> and \<open>max_revisions = N\<close> and
  reaches the end has called \<open>generate\<close> exactly \<open>N\<close> times when \<open>N\<close> is at least 1, and
  once otherwise; its nodes are \<open>planner\<close>, \<open>research_plan\<close>, \<open>generate\<close> and then, for every
  further call, \<open>reflect\<close>, \<open>research_critique\<close>, \<open>generate\<close>. With \<open>max_revisions = 2\<close>
  there are two calls of \<open>generate\<close>.
\<close>

theorem generate_called_max_revisions_times:
  assumes "run w s0 = (Inr sf, tr)"
      and "revision_number s0 = Val 1"
      and "max_revisions s0 = Val N"
  shows "(1 \<le> N \<longrightarrow> int (generate_calls tr) = N) \<and>
         (N < 1 \<longrightarrow> generate_calls tr = 1) \<and>
         nodes_run tr = [Planner, Research_plan, Generate] @ rounds (nat (max 1 N) - 1) \<and>
         (N = 2 \<longrightarrow> generate_calls tr = 2)"
proof -
  have g: "get_default (revision_number s0) 1 = Some 1"
    using assms(2) by (simp add: get_default_def)
  from nodes_run_from[OF assms(1)[unfolded run_def] assms(3) g]
  have nodes: "nodes_run tr = [Planner, Research_plan, Generate] @ rounds (nat (max 1 N) - 1)"
    by (simp add: entry_point_def nodes_run_def)
  then have "generate_calls tr = 1 + (nat (max 1 N) - 1)"
    by (simp add: generate_calls_def generate_calls_rounds)
  then have "generate_calls tr = nat (max 1 N)"
    by simp
  with nodes show ?thesis
    by auto
qed

theorem generate_called_max_revisions_times_witness:
  "generate_calls (snd (run (sample_world [''a'']) (start 1 2))) = 2 \<and>
   nodes_run (snd (run (sample_world [''a'']) (start 1 2))) =
     [Planner, Research_plan, Generate, Reflect, Research_critique, Generate]"
proof -
  let ?r = "run (sample_world [''a'']) (start 1 2)"
  have "isl (fst ?r) = False"
    by code_simp
  then obtain sf where "fst ?r = Inr sf"
    by (cases "fst ?r") auto
  then have h1: "?r = (Inr sf, snd ?r)"
    by (metis prod.collapse)
  have h2: "revision_number (start 1 2) = Val 1"
    by (simp add: start_def)
  have h3: "max_revisions (start 1 2) = Val 2"
    by (simp add: start_def)
  from generate_called_max_revisions_times[OF h1 h2 h3] show ?thesis
    by (simp add: rounds_def)
qed






text \<open>
  C8: the edge out of \<open>generate\<close> goes to the end exactly when \<open>revision_number\<close> is
  strictly greater than \<open>max_revisions\<close>; otherwise, and so when the two are equal, it
  goes to \<open>reflect\<close>.
\<close>

theorem should_continue_strict:
  "(edge Generate s = Inr END \<longleftrightarrow>
      (\<exists>r m. revision_number s = Val r \<and> max_revisions s = Val m \<and> r > m)) \<and>
   (\<forall>r m. revision_number s = Val r \<and> max_revisions s = Val m \<longrightarrow>
      edge Generate s = Inr (if r > m then END else Node Reflect)) \<and>
   (\<forall>r. revision_number s = Val r \<and> max_revisions s = Val r \<longrightarrow>
      edge Generate s = Inr (Node Reflect))"
  by (auto simp: should_continue_def subscript_def split: slot.splits)

theorem should_continue_strict_witness:
  "edge Generate (start 2 2) = Inr (Node Reflect) \<and> edge Generate (start 3 2) = Inr END"
  using should_continue_strict[of "start 2 2"] should_continue_strict[of "start 3 2"]
  by (simp add: start_def)

text \<open>
  C9, as stated, fails: a run that starts with content of its own keeps it, so the content
  at the end is more than the snippets of the run's retrieval calls.
\<close>

theorem initial_content_kept_counterexample:
  "map_sum id content_of
     (fst (run (sample_world [''a'']) ((start 1 1)\<lparr>content := Val [''seed'']\<rparr>)))
     = Inr [''seed'', ''a'', ''more on a''] \<and>
   snippets (sample_world [''a''])
     (calls_of (snd (run (sample_world [''a'']) ((start 1 1)\<lparr>content := Val [''seed'']\<rparr>))))
     = [''a'', ''more on a'']"
  by code_simp

text \<open>
  C9, amended: in every run the content only grows at its end: the content before the run
  and after each node is a prefix of the content after every later node. After a run that
  reaches the end, the content is the content the run started with (empty when the key was
  absent or \<open>None\<close>) followed by the snippets of all retrieval calls of the run, in call
  order.
\<close>

theorem content_append_only:
  assumes "run w s0 = (res, tr)"
  shows "sorted_wrt prefix (content_of s0 # map (\<lambda>(n, calls, s). content_of s) tr) \<and>
         (\<forall>sf. res = Inr sf \<longrightarrow> content_of sf = content_of s0 @ snippets w (calls_of tr))"
  using content_run_from[OF assms[unfolded run_def]] by auto

theorem content_append_only_witness:
  "map_sum id content_of (fst (run (sample_world [''a'']) (start 1 2))) =
     Inr (snippets (sample_world [''a''])
            (calls_of (snd (run (sample_world [''a'']) (start 1 2)))))"
proof -
  let ?r = "run (sample_world [''a'']) (start 1 2)"
  have "isl (fst ?r) = False"
    by code_simp
  then obtain sf where sf: "fst ?r = Inr sf"
    by (cases "fst ?r") auto
  have h: "?r = (fst ?r, snd ?r)"
    by simp
  have c0: "content_of (start 1 2) = []"
    by (simp add: start_def content_of_def)
  from content_append_only[OF h] sf c0 show ?thesis
    by simp
qed



end
